theory Spec2Isabelle
  imports Main "HOL-Library.Sublist" "HOL-Library.AList"
begin

section \<open>The BakkesMod plugin updater (bakkesmod_plugin_updater.pyw)\<close>

text \<open>
  The program is a linear sequence of file-system operations driven from a worker thread.
  Everything it does beyond returning values is made explicit here:
  \<^item> the operating system is a record of primitives over an abstract world \<open>'w\<close>
    (the file system and the processes around the program);
  \<^item> the program state is the world, the global \<open>settings\<close> dictionary and the
    trace of what the program has shown, logged and launched so far;
  \<^item> an exception is the \<open>Inl\<close> of a sum, returned together with the state reached.
\<close>

subsection \<open>Python values\<close>

datatype error = ValueError | KeyError | OSError

datatype level = INFO | WARNING | ERROR

datatype event =
    Log level string
  | Showerror string
  | Showinfo string
  | After_idle_update
  | Popen "string list"
  | Copy string string
  | Remove string
  | Rmtree string
  | Root_quit

text \<open>The path separator of the source's string literals (a backslash) and the newline.\<close>

definition sep :: char where
  "sep = CHR 0x5C"

definition newline :: char where
  "newline = CHR 0x0A"

text \<open>
  \<open>s.replace(old, new)\<close>: every occurrence of \<open>old\<close>, found from left to right and
  not overlapping, is replaced. With an empty \<open>old\<close> Python puts \<open>new\<close> before
  every character and at the end.
\<close>

function replace_str :: "string \<Rightarrow> string \<Rightarrow> string \<Rightarrow> string" where
  "replace_str old new [] = (if old = [] then new else [])"
| "replace_str old new (c # cs) =
     (if old = [] then new @ c # replace_str old new cs
      else if prefix old (c # cs)
        then new @ replace_str old new (drop (length old) (c # cs))
        else c # replace_str old new cs)"
  by pat_completeness auto
termination
  by (relation "measure (\<lambda>(old, new, s). length s)") (auto simp: neq_Nil_conv)

text \<open>
  \<open>setting, value = line.split('=', 1)\<close>: the split yields two parts when the line has
  a separator and one part otherwise; unpacking one part into two names raises ValueError.
\<close>

definition split_unpack :: "char \<Rightarrow> string \<Rightarrow> error + (string \<times> string)" where
  "split_unpack c line =
     (if c \<in> set line
      then Inr (takeWhile (\<lambda>x. x \<noteq> c) line, tl (dropWhile (\<lambda>x. x \<noteq> c) line))
      else Inl ValueError)"

text \<open>
  \<open>max(files, key=k)\<close>: ValueError on an empty sequence; among several maximal
  elements the first one met is kept.
\<close>

definition max_key :: "('a \<Rightarrow> 't::linorder) \<Rightarrow> 'a list \<Rightarrow> error + 'a" where
  "max_key k xs =
     (case xs of
        [] \<Rightarrow> Inl ValueError
      | x # rest \<Rightarrow> Inr (foldl (\<lambda>best y. if k best < k y then y else best) x rest))"

subsection \<open>The operating system and the program state\<close>

text \<open>
  The primitives of the standard library which the program calls. The type \<open>'t\<close> is
  the type of creation times, of which only the order is used. \<open>elapse\<close> is what the
  rest of the machine (the browser writing the download) does to the world between two
  polls of the download directory.

  \<open>os_listdir\<close> yields the names of the entries of a directory, and \<open>glob_glob\<close>
  the paths matching a pattern whose directory part is itself a pattern.

  Reading a file, listing a directory, copying and removing can fail, and the failure is
  the exception the program lets through. \<open>os.path.exists\<close> never raises. Launching a
  process, reading a creation time, writing the log and showing a dialog are taken to
  succeed.
\<close>

record ('w, 't) os =
  os_path_exists :: "'w \<Rightarrow> string \<Rightarrow> bool"
  readlines :: "'w \<Rightarrow> string \<Rightarrow> error + string list"
  os_listdir :: "'w \<Rightarrow> string \<Rightarrow> error + string list"
  glob_glob :: "'w \<Rightarrow> string \<Rightarrow> string list"
  os_path_getctime :: "'w \<Rightarrow> string \<Rightarrow> 't"
  subprocess_Popen :: "string list \<Rightarrow> 'w \<Rightarrow> 'w"
  shutil_copy :: "string \<Rightarrow> string \<Rightarrow> 'w \<Rightarrow> error option \<times> 'w"
  os_remove :: "string \<Rightarrow> 'w \<Rightarrow> error option \<times> 'w"
  shutil_rmtree :: "string \<Rightarrow> 'w \<Rightarrow> error option \<times> 'w"
  elapse :: "'w \<Rightarrow> 'w"

record 'w state =
  world :: 'w
  settings :: "(string \<times> string) list"
  trace :: "event list"

definition PLUGINS_URL :: string where
  "PLUGINS_URL = ''https://bakkesplugins.com/plugins/download/26''"

text \<open>
  The module-level dictionary \<open>settings\<close>, as the list of its entries in insertion
  order (a dictionary holds each key once). Its two values are read from the environment
  variables USERPROFILE and APPDATA, so they are parameters here.
\<close>

definition initial_settings :: "string \<Rightarrow> string \<Rightarrow> (string \<times> string) list" where
  "initial_settings DOWNLOAD_DIR BAKKESMOD_DIR =
     [(''download_dir'', DOWNLOAD_DIR), (''bakkesmod_dir'', BAKKESMOD_DIR)]"

definition logging :: "level \<Rightarrow> string \<Rightarrow> 'w state \<Rightarrow> 'w state" where
  "logging lvl msg st = st\<lparr>trace := trace st @ [Log lvl msg]\<rparr>"

definition showerror :: "string \<Rightarrow> 'w state \<Rightarrow> 'w state" where
  "showerror msg st = st\<lparr>trace := trace st @ [Showerror msg]\<rparr>"

definition showinfo :: "string \<Rightarrow> 'w state \<Rightarrow> 'w state" where
  "showinfo msg st = st\<lparr>trace := trace st @ [Showinfo msg]\<rparr>"

definition after_idle_update :: "'w state \<Rightarrow> 'w state" where
  "after_idle_update st = st\<lparr>trace := trace st @ [After_idle_update]\<rparr>"

definition root_quit :: "'w state \<Rightarrow> 'w state" where
  "root_quit st = st\<lparr>trace := trace st @ [Root_quit]\<rparr>"

subsection \<open>read\<close>

definition read :: "('w, 't) os \<Rightarrow> string \<Rightarrow> 'w state \<Rightarrow> (error + string list) \<times> 'w state" where
  "read os file_dir st =
     (if os_path_exists os (world st) file_dir
      then (case readlines os (world st) file_dir of
              Inl e \<Rightarrow> (Inl e, st)
            | Inr contents \<Rightarrow> (Inr contents, logging INFO ''Read file'' st))
      else (Inr [], logging WARNING (''Path does not exist: '' @ file_dir) st))"

subsection \<open>checkDependencies\<close>

text \<open>The first loop: the two fixed files, with the early return.\<close>

fun check_files :: "('w, 't) os \<Rightarrow> string list \<Rightarrow> 'w state \<Rightarrow> bool \<times> 'w state" where
  "check_files os [] st = (True, st)"
| "check_files os (file # files) st =
     (if \<not> os_path_exists os (world st) file
      then (False, logging ERROR (''Path does not exist: '' @ file) st)
      else check_files os files st)"

text \<open>The second loop: over the entries of \<open>settings\<close>, warning only.\<close>

fun warn_dirs :: "('w, 't) os \<Rightarrow> (string \<times> string) list \<Rightarrow> 'w state \<Rightarrow> 'w state" where
  "warn_dirs os [] st = st"
| "warn_dirs os ((setting, dir) # rest) st =
     warn_dirs os rest
       (if sublist ''_dir'' setting \<and> \<not> os_path_exists os (world st) dir
        then logging WARNING
               (''Directory does not exist: (Default '' @ setting @ '') '' @ dir) st
        else st)"

definition checkDependencies :: "('w, 't) os \<Rightarrow> 'w state \<Rightarrow> bool \<times> 'w state" where
  "checkDependencies os st =
     (case check_files os [''settings.txt'', ''unzip_file.bat'']
             (logging INFO ''Checking dependencies'' st) of
        (False, st1) \<Rightarrow> (False, st1)
      | (True, st1) \<Rightarrow> (True, logging INFO ''Checking done'' (warn_dirs os (settings st1) st1)))"

subsection \<open>loadSettings\<close>

text \<open>The loop of the branch taken when the file gave no lines: the defaults are checked.\<close>

fun check_defaults :: "('w, 't) os \<Rightarrow> (string \<times> string) list \<Rightarrow> 'w state \<Rightarrow> bool \<times> 'w state" where
  "check_defaults os [] st = (True, logging INFO ''Using default settings'' st)"
| "check_defaults os ((setting, dir) # rest) st =
     (if sublist ''_dir'' setting \<and> \<not> os_path_exists os (world st) dir
      then (False, logging ERROR
                     (''Directory does not exist: (Default '' @ setting @ '') '' @ dir) st)
      else check_defaults os rest st)"

text \<open>
  The loop over the lines of the file. \<open>setting in settings\<close> and the later reads of
  \<open>settings[setting]\<close> are one lookup in the dictionary.
\<close>

fun load_lines :: "('w, 't) os \<Rightarrow> string list \<Rightarrow> 'w state \<Rightarrow> (error + bool) \<times> 'w state" where
  "load_lines os [] st = (Inr True, logging INFO ''Loading done'' st)"
| "load_lines os (raw # rest) st =
     (let line = replace_str [newline] [] raw in
      if line \<noteq> [] \<and> hd line \<noteq> CHR ''#'' then
        (case split_unpack (CHR ''='') line of
           Inl e \<Rightarrow> (Inl e, st)
         | Inr (setting, val) \<Rightarrow>
             (case map_of (settings st) setting of
                None \<Rightarrow> load_lines os rest st
              | Some current \<Rightarrow>
                  if sublist ''_dir'' setting then
                    if os_path_exists os (world st) val then
                      load_lines os rest
                        (logging INFO (''Using directory (Settings '' @ setting @ '') '' @ val)
                           (st\<lparr>settings := AList.update setting val (settings st)\<rparr>))
                    else if \<not> os_path_exists os (world st) current then
                      (Inr False,
                       logging ERROR
                         (''Directory does not exist (Default '' @ setting @ '') '' @ current)
                         (logging ERROR
                            (''Directory does not exist (Settings '' @ setting @ '') '' @ val) st))
                    else
                      load_lines os rest
                        (logging INFO (''Using directory (Default '' @ setting @ '') '' @ current)
                           (logging WARNING
                              (''Directory does not exist (Settings '' @ setting @ '') '' @ val) st))
                  else load_lines os rest st))
      else load_lines os rest st)"

definition loadSettings :: "('w, 't) os \<Rightarrow> 'w state \<Rightarrow> (error + bool) \<times> 'w state" where
  "loadSettings os st =
     (case read os ''settings.txt'' (logging INFO ''Loading settings'' st) of
        (Inl e, st1) \<Rightarrow> (Inl e, st1)
      | (Inr contents, st1) \<Rightarrow>
          if contents = []
          then (case check_defaults os (settings st1) st1 of (ok, st2) \<Rightarrow> (Inr ok, st2))
          else load_lines os contents st1)"

subsection \<open>downloadPlugins\<close>

text \<open>
  \<open>glob.glob(f"{download_dir}\\*.zip")\<close> splits the pattern at its last separator into
  a directory part and the name pattern \<open>*.zip\<close>.

  The directory part is \<open>download_dir\<close> itself, taken literally, when
  \<open>download_dir\<close> is a plain path: it holds none of the wildcard characters
  \<open>*\<close>, \<open>?\<close> and \<open>[\<close>, it is not empty, it does not end with a separator
  or with the colon of a drive, and it does not start with two separators (a network
  share). Then the result is the entries of that directory whose names match \<open>*.zip\<close>,
  in the order of the listing, each joined to the directory by a separator. The names are
  compared in lower case (the program runs on Windows), a name starting with a dot is never
  matched by the star, and a directory that cannot be listed gives the empty list.

  For every other \<open>download_dir\<close> the directory part is matched or normalised by the
  library, and the result is what the library returns for the pattern.
\<close>

definition separator :: "char \<Rightarrow> bool" where
  "separator c \<longleftrightarrow> c = sep \<or> c = CHR ''/''"

definition wildcard :: "char \<Rightarrow> bool" where
  "wildcard c \<longleftrightarrow> c = CHR ''*'' \<or> c = CHR ''?'' \<or> c = CHR ''[''"

definition plain_dir :: "string \<Rightarrow> bool" where
  "plain_dir download_dir \<longleftrightarrow>
     download_dir \<noteq> [] \<and>
     \<not> separator (last download_dir) \<and> last download_dir \<noteq> CHR '':'' \<and>
     \<not> list_ex wildcard download_dir \<and>
     \<not> list_all separator (take 2 download_dir)"

definition lower :: "char \<Rightarrow> char" where
  "lower c =
     (case map_of (zip ''ABCDEFGHIJKLMNOPQRSTUVWXYZ'' ''abcdefghijklmnopqrstuvwxyz'') c of
        None \<Rightarrow> c
      | Some l \<Rightarrow> l)"

definition zip_name :: "string \<Rightarrow> bool" where
  "zip_name name \<longleftrightarrow> name \<noteq> [] \<and> hd name \<noteq> CHR ''.'' \<and> suffix ''.zip'' (map lower name)"

definition glob_zip :: "('w, 't) os \<Rightarrow> 'w \<Rightarrow> string \<Rightarrow> string list" where
  "glob_zip os w download_dir =
     (if plain_dir download_dir
      then (case os_listdir os w download_dir of
              Inl e \<Rightarrow> []
            | Inr names \<Rightarrow> map (\<lambda>name. download_dir @ sep # name) (filter zip_name names))
      else glob_glob os w (download_dir @ sep # ''*.zip''))"

text \<open>
  The \<open>while True\<close> loop. It has no exit of its own, so it is a partial function: the
  value \<open>None\<close> is the loop that never returns.
\<close>

partial_function (option) poll ::
  "('w, 't::linorder) os \<Rightarrow> string \<Rightarrow> 'w state \<Rightarrow> ((error + string \<times> string) \<times> 'w state) option"
where
  "poll os download_dir st =
     (case max_key (os_path_getctime os (world st)) (glob_zip os (world st) download_dir) of
        Inl e \<Rightarrow> Some (Inl e, st)
      | Inr latest_file \<Rightarrow>
          if sublist ''RocketPlugin_'' latest_file
          then Some (Inr (replace_str (download_dir @ [sep]) [] latest_file, latest_file),
                     logging INFO ''Download done'' st)
          else poll os download_dir (st\<lparr>world := elapse os (world st)\<rparr>))"

definition popen :: "('w, 't) os \<Rightarrow> string list \<Rightarrow> 'w state \<Rightarrow> 'w state" where
  "popen os args st =
     st\<lparr>world := subprocess_Popen os args (world st), trace := trace st @ [Popen args]\<rparr>"

definition downloadPlugins ::
  "('w, 't::linorder) os \<Rightarrow> string \<Rightarrow> 'w state \<Rightarrow> ((error + string \<times> string) \<times> 'w state) option"
where
  "downloadPlugins os download_dir st =
     poll os download_dir
       (popen os [''start \"\" '' @ PLUGINS_URL] (logging INFO ''Downloading'' st))"

subsection \<open>unzipPlugins\<close>

definition unzipPlugins :: "('w, 't) os \<Rightarrow> string \<Rightarrow> 'w state \<Rightarrow> 'w state" where
  "unzipPlugins os file_dir st =
     (let st1 = logging INFO ''Unzipping'' st in
      if os_path_exists os (world st1) file_dir
      then logging INFO ''Already unzipped'' st1
      else logging INFO ''Unzipping done'' (popen os [''unzip_file.bat'', file_dir] st1))"

subsection \<open>updatePlugins and cleanDownloads\<close>

definition effect ::
  "('w \<Rightarrow> error option \<times> 'w) \<Rightarrow> event \<Rightarrow> 'w state \<Rightarrow> (error + unit) \<times> 'w state" where
  "effect f ev st =
     (case f (world st) of
        (Some e, w) \<Rightarrow> (Inl e, st\<lparr>world := w\<rparr>)
      | (None, w) \<Rightarrow> (Inr (), st\<lparr>world := w, trace := trace st @ [ev]\<rparr>))"

fun copy_presets ::
  "('w, 't) os \<Rightarrow> string \<Rightarrow> string \<Rightarrow> string list \<Rightarrow> 'w state \<Rightarrow> (error + unit) \<times> 'w state" where
  "copy_presets os bakkesmod_dir file_dir [] st = (Inr (), st)"
| "copy_presets os bakkesmod_dir file_dir (filename # rest) st =
     (let src = file_dir @ sep # ''data'' @ sep # ''RocketPlugin'' @ sep # ''presets'' @ sep # filename;
          dst = bakkesmod_dir @ sep # ''cfg'' @ [sep] in
      case effect (shutil_copy os src dst) (Copy src dst) st of
        (Inl e, st1) \<Rightarrow> (Inl e, st1)
      | (Inr u, st1) \<Rightarrow> copy_presets os bakkesmod_dir file_dir rest st1)"

definition updatePlugins ::
  "('w, 't) os \<Rightarrow> string \<Rightarrow> string \<Rightarrow> 'w state \<Rightarrow> (error + unit) \<times> 'w state" where
  "updatePlugins os bakkesmod_dir file_dir st =
     (let st1 = logging INFO ''Updating plugins'' st in
      case os_listdir os (world st1)
             (file_dir @ sep # ''data'' @ sep # ''RocketPlugin'' @ sep # ''presets'') of
        Inl e \<Rightarrow> (Inl e, st1)
      | Inr filenames \<Rightarrow>
          (case copy_presets os bakkesmod_dir file_dir filenames st1 of
             (Inl e, st2) \<Rightarrow> (Inl e, st2)
           | (Inr u, st2) \<Rightarrow>
               (let dll = file_dir @ sep # ''plugins'' @ sep # ''RocketPlugin.dll'';
                    dll_to = bakkesmod_dir @ sep # ''plugins'' @ [sep] in
                case effect (shutil_copy os dll dll_to) (Copy dll dll_to) st2 of
                  (Inl e, st3) \<Rightarrow> (Inl e, st3)
                | (Inr u, st3) \<Rightarrow>
                    (let cfg = file_dir @ sep # ''plugins'' @ sep # ''settings'' @ sep # ''rocketplugin.set'';
                         cfg_to = bakkesmod_dir @ sep # ''plugins'' @ sep # ''settings'' @ [sep] in
                     case effect (shutil_copy os cfg cfg_to) (Copy cfg cfg_to) st3 of
                       (Inl e, st4) \<Rightarrow> (Inl e, st4)
                     | (Inr u, st4) \<Rightarrow> (Inr (), logging INFO ''Update done'' st4)))))"

definition cleanDownloads ::
  "('w, 't) os \<Rightarrow> string \<Rightarrow> string \<Rightarrow> 'w state \<Rightarrow> (error + unit) \<times> 'w state" where
  "cleanDownloads os zipped_file_dir file_dir st =
     (case effect (os_remove os zipped_file_dir) (Remove zipped_file_dir)
             (logging INFO ''Cleaning downloads'' st) of
        (Inl e, st1) \<Rightarrow> (Inl e, st1)
      | (Inr u, st1) \<Rightarrow>
          (case effect (shutil_rmtree os file_dir) (Rmtree file_dir) st1 of
             (Inl e, st2) \<Rightarrow> (Inl e, st2)
           | (Inr u, st2) \<Rightarrow> (Inr (), logging INFO ''Cleanup done'' st2)))"

subsection \<open>GUI.main\<close>

text \<open>Line 252: the directory the archive is extracted to.\<close>

definition file_dir_of :: "string \<Rightarrow> string" where
  "file_dir_of zipped_file_dir = replace_str ''.zip'' [] zipped_file_dir"

text \<open>The text of the general error dialog shown after the loop.\<close>

definition error_occurred_message :: string where
  "error_occurred_message =
     ''Error occurred! Please email the '' @ CHR 0x27 # ''log.log'' @ CHR 0x27 #
     '' file to greenchicken1902@gmail.com''"

text \<open>The statements after the loop, reached by \<open>break\<close>.\<close>

definition finish :: "bool \<Rightarrow> 'w state \<Rightarrow> 'w state" where
  "finish error_occurred st =
     root_quit (logging INFO ''Quiting root''
       (if error_occurred
        then showerror error_occurred_message st
        else st))"

text \<open>
  The body of \<open>while not error_occurred\<close> runs once: every path through it ends in
  \<open>break\<close> or in an exception. The result is the final value of \<open>error_occurred\<close>
  when the method returns, the exception when one leaves it (no handler is installed in
  the worker thread), and \<open>None\<close> when the polling loop never returns.
\<close>

definition main ::
  "('w, 't::linorder) os \<Rightarrow> string \<Rightarrow> 'w state \<Rightarrow> ((error + bool) \<times> 'w state) option" where
  "main os thread_name st =
     (case checkDependencies os (logging INFO (''Thread started: '' @ thread_name) st) of
        (False, st1) \<Rightarrow>
          Some (Inr True, finish True (showerror ''Could not resolve dependencies!'' st1))
      | (True, st1) \<Rightarrow>
          (case loadSettings os (after_idle_update st1) of
             (Inl e, st2) \<Rightarrow> Some (Inl e, st2)
           | (Inr False, st2) \<Rightarrow>
               Some (Inr True, finish True (showerror ''Could not resolve settings!'' st2))
           | (Inr True, st2) \<Rightarrow>
               (case map_of (settings st2) ''download_dir'' of
                  None \<Rightarrow> Some (Inl KeyError, after_idle_update st2)
                | Some download_dir \<Rightarrow>
                    (case downloadPlugins os download_dir (after_idle_update st2) of
                       None \<Rightarrow> None
                     | Some (Inl e, st3) \<Rightarrow> Some (Inl e, st3)
                     | Some (Inr (filename, zipped_file_dir), st3) \<Rightarrow>
                         (let file_dir = file_dir_of zipped_file_dir;
                              st4 = after_idle_update
                                      (unzipPlugins os file_dir (after_idle_update st3)) in
                          case map_of (settings st4) ''bakkesmod_dir'' of
                            None \<Rightarrow> Some (Inl KeyError, st4)
                          | Some bakkesmod_dir \<Rightarrow>
                              (case updatePlugins os bakkesmod_dir file_dir st4 of
                                 (Inl e, st5) \<Rightarrow> Some (Inl e, st5)
                               | (Inr u, st5) \<Rightarrow>
                                   (case cleanDownloads os zipped_file_dir file_dir
                                           (after_idle_update st5) of
                                      (Inl e, st6) \<Rightarrow> Some (Inl e, st6)
                                    | (Inr u, st6) \<Rightarrow>
                                        Some (Inr False,
                                              finish False
                                                (showinfo ''Plugins were updated Successfully!''
                                                   (after_idle_update st6))))))))))"

subsection \<open>Notions used to state the properties\<close>

text \<open>
  The warnings which the second loop of \<open>checkDependencies\<close> writes, the world seen by
  the n-th poll of \<open>downloadPlugins\<close>, a poll of the download directory that finds an
  archive and does not accept it, and a small concrete machine to run the program on: its
  world is the list of the paths that exist, the lines of every file and the entries of
  every directory (each with its creation time) are fixed, no path matches a pattern with
  a wildcard in its directory part, a launched process creates the paths given as its
  arguments, and every copy and removal succeeds.
\<close>

definition dir_warnings :: "('w, 't) os \<Rightarrow> 'w \<Rightarrow> (string \<times> string) list \<Rightarrow> event list" where
  "dir_warnings os w kvs =
     map (\<lambda>(setting, dir). Log WARNING (''Directory does not exist: (Default '' @ setting @ '') '' @ dir))
       (filter (\<lambda>(setting, dir). sublist ''_dir'' setting \<and> \<not> os_path_exists os w dir) kvs)"

definition test_os :: "string list \<Rightarrow> (string \<times> nat) list \<Rightarrow> (string list, nat) os" where
  "test_os lines entries =
     \<lparr>os_path_exists = (\<lambda>w p. p \<in> set w),
      readlines = (\<lambda>w p. Inr lines),
      os_listdir = (\<lambda>w p. Inr (map fst entries)),
      glob_glob = (\<lambda>w pattern. []),
      os_path_getctime =
        (\<lambda>w p. case map_of entries (rev (takeWhile (\<lambda>c. c \<noteq> sep) (rev p))) of
                  None \<Rightarrow> 0 | Some t \<Rightarrow> t),
      subprocess_Popen = (\<lambda>args w. w @ tl args),
      shutil_copy = (\<lambda>src dst w. (None, w)),
      os_remove = (\<lambda>p w. (None, w)),
      shutil_rmtree = (\<lambda>p w. (None, w)),
      elapse = (\<lambda>w. w)\<rparr>"

definition polling_world :: "('w, 't) os \<Rightarrow> 'w state \<Rightarrow> nat \<Rightarrow> 'w" where
  "polling_world os st n =
     (elapse os ^^ n) (subprocess_Popen os [''start \"\" '' @ PLUGINS_URL] (world st))"

definition waiting :: "('w, 't::linorder) os \<Rightarrow> string \<Rightarrow> 'w \<Rightarrow> bool" where
  "waiting os download_dir w =
     (case max_key (os_path_getctime os w) (glob_zip os w download_dir) of
        Inl e \<Rightarrow> False
      | Inr latest_file \<Rightarrow> \<not> sublist ''RocketPlugin_'' latest_file)"

text \<open>
  The configuration file as the interface describes it: after the newline is removed a line
  is ignored when it is empty or starts with \<open>#\<close>, and is otherwise of the form
  \<open>key=value\<close>. \<open>config_entries\<close> lists the assignments of a file in order, and
  \<open>apply_config\<close> adopts them one after the other for the keys the settings already
  hold.
\<close>

definition stripped :: "string \<Rightarrow> string" where
  "stripped raw = replace_str [newline] [] raw"

definition ignored_line :: "string \<Rightarrow> bool" where
  "ignored_line raw \<longleftrightarrow> stripped raw = [] \<or> hd (stripped raw) = CHR ''#''"

definition wellformed_line :: "string \<Rightarrow> bool" where
  "wellformed_line raw \<longleftrightarrow> ignored_line raw \<or> CHR ''='' \<in> set (stripped raw)"

definition assignment :: "string \<Rightarrow> string \<times> string" where
  "assignment raw =
     (takeWhile (\<lambda>x. x \<noteq> CHR ''='') (stripped raw),
      tl (dropWhile (\<lambda>x. x \<noteq> CHR ''='') (stripped raw)))"

definition config_entries :: "string list \<Rightarrow> (string \<times> string) list" where
  "config_entries contents = map assignment (filter (\<lambda>raw. \<not> ignored_line raw) contents)"

fun apply_config :: "(string \<times> string) list \<Rightarrow> (string \<times> string) list \<Rightarrow> (string \<times> string) list" where
  "apply_config s [] = s"
| "apply_config s ((k, v) # es) =
     apply_config (if k \<in> fst ` set s \<and> sublist ''_dir'' k then AList.update k v s else s) es"

text \<open>A path with its final extension removed (the extension of the last component).\<close>

definition without_extension :: "string \<Rightarrow> string" where
  "without_extension path =
     (if CHR ''.'' \<in> set (takeWhile (\<lambda>c. c \<noteq> sep) (rev path))
      then rev (tl (dropWhile (\<lambda>c. c \<noteq> CHR ''.'') (rev path)))
      else path)"

text \<open>The modal dialogs among the events of a run.\<close>

fun is_dialog :: "event \<Rightarrow> bool" where
  "is_dialog (Showerror msg) = True"
| "is_dialog (Showinfo msg) = True"
| "is_dialog ev = False"

definition dialogs :: "'w state \<Rightarrow> event list" where
  "dialogs st = filter is_dialog (trace st)"

section \<open>Properties\<close>

subsection \<open>Auxiliary facts\<close>

lemma poll_waiting:
  "waiting os d (world st) \<Longrightarrow> poll os d st = poll os d (st\<lparr>world := elapse os (world st)\<rparr>)"
  by (subst poll.simps) (simp add: waiting_def split: sum.splits)

lemma poll_skip:
  "\<forall>i<n. waiting os d ((elapse os ^^ i) (world st)) \<Longrightarrow>
   poll os d st = poll os d (st\<lparr>world := (elapse os ^^ n) (world st)\<rparr>)"
proof (induction n)
  case 0
  show ?case by simp
next
  case (Suc n)
  have "poll os d st = poll os d (st\<lparr>world := (elapse os ^^ n) (world st)\<rparr>)"
    using Suc by simp
  also have "\<dots> = poll os d (st\<lparr>world := (elapse os ^^ Suc n) (world st)\<rparr>)"
    using poll_waiting [of os d "st\<lparr>world := (elapse os ^^ n) (world st)\<rparr>"] Suc.prems
    by simp
  finally show ?case .
qed

text \<open>A loop whose every poll keeps waiting never returns.\<close>

lemma poll_never:
  assumes "\<forall>i. waiting os d ((elapse os ^^ i) (world st))"
  shows "poll os d st = None"
proof (rule ccontr)
  assume "poll os d st \<noteq> None"
  then obtain y where y: "poll os d st = Some y" by (cases "poll os d st") simp_all
  have "\<not> (\<forall>i. waiting os d ((elapse os ^^ i) (world st)))"
  proof (rule poll.raw_induct
      [where P = "\<lambda>os d st y. \<not> (\<forall>i. waiting os d ((elapse os ^^ i) (world st)))", OF _ y])
    fix p :: "('a, 'b) os \<Rightarrow> string \<Rightarrow> 'a state \<Rightarrow> ((error + string \<times> string) \<times> 'a state) option"
    fix os d st y
    assume IH: "\<And>os d st y. p os d st = Some y \<Longrightarrow>
        \<not> (\<forall>i. waiting os d ((elapse os ^^ i) (world st)))"
    assume b: "(case max_key (os_path_getctime os (world st)) (glob_zip os (world st) d) of
        Inl e \<Rightarrow> Some (Inl e, st)
      | Inr latest_file \<Rightarrow>
          if sublist ''RocketPlugin_'' latest_file
          then Some (Inr (replace_str (d @ [sep]) [] latest_file, latest_file),
                     logging INFO ''Download done'' st)
          else p os d (st\<lparr>world := elapse os (world st)\<rparr>)) = Some y"
    show "\<not> (\<forall>i. waiting os d ((elapse os ^^ i) (world st)))"
    proof
      assume all: "\<forall>i. waiting os d ((elapse os ^^ i) (world st))"
      from all [rule_format, of 0] have w0: "waiting os d (world st)" by simp
      from b w0 have "p os d (st\<lparr>world := elapse os (world st)\<rparr>) = Some y"
        by (simp add: waiting_def split: sum.splits)
      from IH [OF this]
      have "\<not> (\<forall>i. waiting os d ((elapse os ^^ i) (elapse os (world st))))" by simp
      moreover have "\<forall>i. waiting os d ((elapse os ^^ i) (elapse os (world st)))"
      proof
        fix i
        from all [rule_format, of "Suc i"]
        show "waiting os d ((elapse os ^^ i) (elapse os (world st)))"
          by (simp add: funpow_swap1)
      qed
      ultimately show False by (rule notE)
    qed
  qed
  with assms show False by (rule notE [rotated])
qed

lemma poll_empty:
  "glob_zip os (world st) d = [] \<Longrightarrow> poll os d st = Some (Inl ValueError, st)"
  by (subst poll.simps) (simp add: max_key_def)

lemma poll_accept:
  "max_key (os_path_getctime os (world st)) (glob_zip os (world st) d) = Inr latest \<Longrightarrow>
   sublist ''RocketPlugin_'' latest \<Longrightarrow>
   poll os d st = Some (Inr (replace_str (d @ [sep]) [] latest, latest), logging INFO ''Download done'' st)"
  by (subst poll.simps) simp

lemma max_key_foldl:
  fixes k :: "'a \<Rightarrow> 't::linorder"
  shows "foldl (\<lambda>best y. if k best < k y then y else best) x rest \<in> set (x # rest) \<and>
   (\<forall>f \<in> set (x # rest). k f \<le> k (foldl (\<lambda>best y. if k best < k y then y else best) x rest))"
proof (induction rest arbitrary: x)
  case Nil
  show ?case by simp
next
  case (Cons y ys)
  let ?f = "\<lambda>best y. if k best < k y then y else best"
  show ?case
  proof (cases "k x < k y")
    case True
    then have "foldl ?f x (y # ys) = foldl ?f y ys" by simp
    with Cons.IH [of y] True show ?thesis
      by (auto intro: less_imp_le order_trans)
  next
    case False
    then have "foldl ?f x (y # ys) = foldl ?f x ys" by simp
    with Cons.IH [of x] False show ?thesis
      by (auto simp: not_less intro: order_trans)
  qed
qed

lemma max_key_Inr:
  fixes k :: "'a \<Rightarrow> 't::linorder"
  shows "xs \<noteq> [] \<Longrightarrow> \<exists>m. max_key k xs = Inr m \<and> m \<in> set xs \<and> (\<forall>f \<in> set xs. k f \<le> k m)"
  using max_key_foldl [of k "hd xs" "tl xs"]
  by (cases xs) (simp_all add: max_key_def)

lemma max_key_Inr_D:
  fixes k :: "'a \<Rightarrow> 't::linorder"
  shows "max_key k xs = Inr m \<Longrightarrow> m \<in> set xs \<and> (\<forall>f \<in> set xs. k f \<le> k m)"
  using max_key_Inr [of xs k] by (cases xs) (auto simp: max_key_def)

lemma glob_zip_plain:
  "plain_dir d \<Longrightarrow> os_listdir os w d = Inr names \<Longrightarrow>
   glob_zip os w d = map (\<lambda>name. d @ sep # name) (filter zip_name names)"
  by (simp add: glob_zip_def)

lemma glob_zip_unlisted:
  "plain_dir d \<Longrightarrow> os_listdir os w d = Inl e \<Longrightarrow> glob_zip os w d = []"
  by (simp add: glob_zip_def)

lemma sublist_dir_path: "sublist xs d \<Longrightarrow> sublist xs (d @ sep # name)"
proof -
  assume "sublist xs d"
  then obtain ps ss where "d = ps @ xs @ ss" by (auto simp: sublist_def)
  then have "d @ sep # name = ps @ xs @ (ss @ sep # name)" by simp
  then show ?thesis unfolding sublist_def by blast
qed

lemma sublist_name_path: "sublist xs name \<Longrightarrow> sublist xs (d @ sep # name)"
proof -
  assume "sublist xs name"
  then obtain ps ss where "name = ps @ xs @ ss" by (auto simp: sublist_def)
  then have "d @ sep # name = (d @ sep # ps) @ xs @ ss" by simp
  then show ?thesis unfolding sublist_def by blast
qed

lemma prefix_name_path: "prefix xs name \<Longrightarrow> sublist xs (d @ sep # name)"
  by (rule sublist_name_path) (rule prefix_imp_sublist)

lemma replace_str_prefix:
  "old \<noteq> [] \<Longrightarrow> replace_str old new (old @ s) = new @ replace_str old new s"
  by (cases old) simp_all

lemma replace_str_absent:
  "c \<in> set old \<Longrightarrow> c \<notin> set s \<Longrightarrow> replace_str old new s = s"
proof (induction s)
  case Nil
  then show ?case by auto
next
  case (Cons a s)
  have "\<not> prefix old (a # s)"
  proof
    assume "prefix old (a # s)"
    then have "set old \<subseteq> set (a # s)" by (rule set_mono_prefix)
    with Cons.prems show False by auto
  qed
  moreover have "old \<noteq> []" using Cons.prems by auto
  ultimately show ?case using Cons by simp
qed

lemma filename_of_path:
  "sep \<notin> set name \<Longrightarrow> replace_str (d @ [sep]) [] (d @ sep # name) = name"
  using replace_str_prefix [of "d @ [sep]" "[]" name] replace_str_absent [of sep "d @ [sep]" name "[]"]
  by simp

lemma world_logging [simp]: "world (logging l m st) = world st"
  and settings_logging [simp]: "settings (logging l m st) = settings st"
  and trace_logging [simp]: "trace (logging l m st) = trace st @ [Log l m]"
  by (simp_all add: logging_def)

lemma warn_dirs_eq:
  "warn_dirs os kvs st = st\<lparr>trace := trace st @ dir_warnings os (world st) kvs\<rparr>"
proof (induction kvs arbitrary: st)
  case Nil
  show ?case by (simp add: dir_warnings_def)
next
  case (Cons kv kvs)
  obtain k v where kv: "kv = (k, v)" by (cases kv)
  show ?case
  proof (cases "sublist ''_dir'' k \<and> \<not> os_path_exists os (world st) v")
    case True
    then show ?thesis unfolding kv
      by (simp add: Cons.IH dir_warnings_def logging_def del: append.simps)
  next
    case False
    then show ?thesis unfolding kv
      by (simp add: Cons.IH dir_warnings_def del: append.simps)
  qed
qed

lemma check_files_fst:
  "fst (check_files os files st) = (\<forall>f \<in> set files. os_path_exists os (world st) f)"
  by (induction files) auto

lemma check_files_True:
  "\<forall>f \<in> set files. os_path_exists os (world st) f \<Longrightarrow> check_files os files st = (True, st)"
  by (induction files) auto


lemma checkDependencies_missing:
  "\<not> (os_path_exists os (world st) ''settings.txt'' \<and>
      os_path_exists os (world st) ''unzip_file.bat'') \<Longrightarrow>
   checkDependencies os st =
     (False, logging ERROR
        (''Path does not exist: '' @
           (if \<not> os_path_exists os (world st) ''settings.txt''
            then ''settings.txt'' else ''unzip_file.bat''))
        (logging INFO ''Checking dependencies'' st))"
  by (auto simp: checkDependencies_def)

lemma checkDependencies_present:
  "os_path_exists os (world st) ''settings.txt'' \<Longrightarrow>
   os_path_exists os (world st) ''unzip_file.bat'' \<Longrightarrow>
   checkDependencies os st =
     (True, logging INFO ''Checking done''
        (warn_dirs os (settings st) (logging INFO ''Checking dependencies'' st)))"
  by (simp add: checkDependencies_def)

lemma trace_simps [simp]:
  "trace (showerror m st) = trace st @ [Showerror m]"
  "trace (showinfo m st) = trace st @ [Showinfo m]"
  "trace (after_idle_update st) = trace st @ [After_idle_update]"
  "trace (root_quit st) = trace st @ [Root_quit]"
  "trace (popen os args st) = trace st @ [Popen args]"
  by (simp_all add: showerror_def showinfo_def after_idle_update_def root_quit_def popen_def)

lemma world_simps [simp]:
  "world (showerror m st) = world st"
  "world (showinfo m st) = world st"
  "world (after_idle_update st) = world st"
  "world (root_quit st) = world st"
  "world (popen os args st) = subprocess_Popen os args (world st)"
  by (simp_all add: showerror_def showinfo_def after_idle_update_def root_quit_def popen_def)

lemma settings_simps [simp]:
  "settings (showerror m st) = settings st"
  "settings (showinfo m st) = settings st"
  "settings (after_idle_update st) = settings st"
  "settings (root_quit st) = settings st"
  "settings (popen os args st) = settings st"
  by (simp_all add: showerror_def showinfo_def after_idle_update_def root_quit_def popen_def)

subsection \<open>The dependency check\<close>

text \<open>
  Claim C2. \<open>checkDependencies\<close> returns false if and only if \<open>settings.txt\<close> or
  \<open>unzip_file.bat\<close> is absent at the run location. When both are present it returns
  true whatever the settings hold, and a settings directory that does not exist only adds a
  warning to the log.
\<close>

theorem checkDependencies_files:
  "(fst (checkDependencies os st) = False) =
     (\<not> os_path_exists os (world st) ''settings.txt'' \<or>
      \<not> os_path_exists os (world st) ''unzip_file.bat'')
   \<and> (os_path_exists os (world st) ''settings.txt'' \<and>
      os_path_exists os (world st) ''unzip_file.bat'' \<longrightarrow>
      checkDependencies os st =
        (True, st\<lparr>trace := trace st @ [Log INFO ''Checking dependencies''] @
                            dir_warnings os (world st) (settings st) @
                            [Log INFO ''Checking done'']\<rparr>))"
proof (cases "os_path_exists os (world st) ''settings.txt'' \<and>
      os_path_exists os (world st) ''unzip_file.bat''")
  case True
  then have "checkDependencies os st =
     (True, logging INFO ''Checking done''
        (warn_dirs os (settings st) (logging INFO ''Checking dependencies'' st)))"
    by (simp add: checkDependencies_present)
  then show ?thesis using True by (simp add: warn_dirs_eq logging_def)
next
  case False
  from checkDependencies_missing [OF False] have "fst (checkDependencies os st) = False"
    by simp
  with False show ?thesis by blast
qed

theorem checkDependencies_files_witness:
  "fst (checkDependencies (test_os [] [])
     \<lparr>world = [''unzip_file.bat''], settings = initial_settings ''D:'' ''B:'', trace = []\<rparr>) = False
   \<and> checkDependencies (test_os [] [])
     \<lparr>world = [''settings.txt'', ''unzip_file.bat''],
      settings = initial_settings ''D:'' ''B:'', trace = []\<rparr> =
     (True, \<lparr>world = [''settings.txt'', ''unzip_file.bat''],
             settings = initial_settings ''D:'' ''B:'',
             trace = [Log INFO ''Checking dependencies'',
                      Log WARNING ''Directory does not exist: (Default download_dir) D:'',
                      Log WARNING ''Directory does not exist: (Default bakkesmod_dir) B:'',
                      Log INFO ''Checking done'']\<rparr>)"
  using checkDependencies_files [of "test_os [] []"
      "\<lparr>world = [''unzip_file.bat''], settings = initial_settings ''D:'' ''B:'', trace = []\<rparr>"]
    checkDependencies_files [of "test_os [] []"
      "\<lparr>world = [''settings.txt'', ''unzip_file.bat''],
        settings = initial_settings ''D:'' ''B:'', trace = []\<rparr>"]
  by (simp add: test_os_def dir_warnings_def initial_settings_def sublist_code)

subsection \<open>A missing dependency stops the run before the download\<close>

text \<open>
  Claim C8. When one of the two dependency files is missing, \<open>main\<close> returns with
  \<open>error_occurred\<close> set, the world and the settings are untouched, and the whole run
  consists of the log lines of the check, the two error dialogs and the quit: nothing is
  launched, so neither the download nor any later step is invoked.
\<close>

theorem main_missing_dependency:
  assumes "\<not> os_path_exists os (world st) ''settings.txt'' \<or>
           \<not> os_path_exists os (world st) ''unzip_file.bat''"
  shows "\<exists>missing st'.
           main os thread_name st = Some (Inr True, st') \<and>
           world st' = world st \<and> settings st' = settings st \<and>
           trace st' = trace st @
             [Log INFO (''Thread started: '' @ thread_name),
              Log INFO ''Checking dependencies'',
              Log ERROR (''Path does not exist: '' @ missing),
              Showerror ''Could not resolve dependencies!'',
              Showerror error_occurred_message,
              Log INFO ''Quiting root'',
              Root_quit]"
proof -
  let ?st0 = "logging INFO (''Thread started: '' @ thread_name) st"
  have "\<not> (os_path_exists os (world ?st0) ''settings.txt'' \<and>
      os_path_exists os (world ?st0) ''unzip_file.bat'')"
    using assms by simp
  note cd = checkDependencies_missing [OF this]
  show ?thesis
    unfolding main_def cd by (simp add: finish_def)
qed

theorem main_missing_dependency_witness:
  "main (test_os [] []) ''Thread-2''
     \<lparr>world = [''settings.txt''], settings = initial_settings ''D:'' ''B:'', trace = []\<rparr> =
   Some (Inr True,
     \<lparr>world = [''settings.txt''], settings = initial_settings ''D:'' ''B:'',
      trace = [Log INFO ''Thread started: Thread-2'',
               Log INFO ''Checking dependencies'',
               Log ERROR ''Path does not exist: unzip_file.bat'',
               Showerror ''Could not resolve dependencies!'',
               Showerror error_occurred_message,
               Log INFO ''Quiting root'',
               Root_quit]\<rparr>)"
proof -
  let ?st = "\<lparr>world = [''settings.txt''], settings = initial_settings ''D:'' ''B:'',
              trace = [] :: event list\<rparr>"
  have h: "\<not> os_path_exists (test_os [] []) (world ?st) ''settings.txt'' \<or>
           \<not> os_path_exists (test_os [] []) (world ?st) ''unzip_file.bat''"
    by (simp add: test_os_def)
  from main_missing_dependency [OF h, of "''Thread-2''"]
  obtain missing st' where r: "main (test_os [] []) ''Thread-2'' ?st = Some (Inr True, st')"
    by blast
  then show ?thesis
    by (simp add: main_def checkDependencies_def test_os_def finish_def logging_def
          showerror_def root_quit_def)
qed

subsection \<open>Extraction\<close>

text \<open>
  Claim C4. When the extraction directory already exists, \<open>unzipPlugins\<close> returns
  normally having only written two log lines: the helper is not launched and the world is
  unchanged. The example after it runs the extractor twice on a machine whose helper creates the
  directory: the first call launches the helper, the second does not.
\<close>

theorem unzipPlugins_already_unzipped:
  assumes "os_path_exists os (world st) file_dir"
  shows "unzipPlugins os file_dir st =
           st\<lparr>trace := trace st @ [Log INFO ''Unzipping'', Log INFO ''Already unzipped'']\<rparr>"
  using assms by (simp add: unzipPlugins_def Let_def logging_def)

theorem unzipPlugins_already_unzipped_witness:
  "unzipPlugins (test_os [] []) ''D:/RocketPlugin_v2''
     \<lparr>world = [], settings = [], trace = []\<rparr> =
     \<lparr>world = [''D:/RocketPlugin_v2''], settings = [],
      trace = [Log INFO ''Unzipping'', Popen [''unzip_file.bat'', ''D:/RocketPlugin_v2''],
               Log INFO ''Unzipping done'']\<rparr>
   \<and> unzipPlugins (test_os [] []) ''D:/RocketPlugin_v2''
       (unzipPlugins (test_os [] []) ''D:/RocketPlugin_v2''
          \<lparr>world = [], settings = [], trace = []\<rparr>) =
     \<lparr>world = [''D:/RocketPlugin_v2''], settings = [],
      trace = [Log INFO ''Unzipping'', Popen [''unzip_file.bat'', ''D:/RocketPlugin_v2''],
               Log INFO ''Unzipping done'', Log INFO ''Unzipping'', Log INFO ''Already unzipped'']\<rparr>"
proof -
  let ?os = "test_os [] [] :: (string list, nat) os"
  let ?st = "\<lparr>world = [] :: string list, settings = [], trace = []\<rparr>"
  have first: "unzipPlugins ?os ''D:/RocketPlugin_v2'' ?st =
     \<lparr>world = [''D:/RocketPlugin_v2''], settings = [],
      trace = [Log INFO ''Unzipping'', Popen [''unzip_file.bat'', ''D:/RocketPlugin_v2''],
               Log INFO ''Unzipping done'']\<rparr>"
    by (simp add: unzipPlugins_def Let_def logging_def popen_def test_os_def)
  have h: "os_path_exists ?os (world (unzipPlugins ?os ''D:/RocketPlugin_v2'' ?st)) ''D:/RocketPlugin_v2''"
    unfolding first by (simp add: test_os_def)
  from unzipPlugins_already_unzipped [OF h] first show ?thesis by simp
qed

subsection \<open>The polling loop of the download\<close>

lemma downloadPlugins_skip:
  assumes "\<forall>i<n. waiting os d (polling_world os st i)"
  shows "downloadPlugins os d st =
         poll os d ((popen os [''start \"\" '' @ PLUGINS_URL] (logging INFO ''Downloading'' st))
                      \<lparr>world := polling_world os st n\<rparr>)"
proof -
  let ?st0 = "popen os [''start \"\" '' @ PLUGINS_URL] (logging INFO ''Downloading'' st)"
  have w: "\<And>i. (elapse os ^^ i) (world ?st0) = polling_world os st i"
    by (simp add: polling_world_def)
  have "poll os d ?st0 = poll os d (?st0\<lparr>world := (elapse os ^^ n) (world ?st0)\<rparr>)"
    by (rule poll_skip) (use assms w in simp)
  then show ?thesis unfolding downloadPlugins_def w .
qed

lemma glob_zip_member:
  assumes "plain_dir d" and "p \<in> set (glob_zip os w d)"
  shows "\<exists>names name. os_listdir os w d = Inr names \<and> name \<in> set names \<and> zip_name name \<and>
           p = d @ sep # name"
proof (cases "os_listdir os w d")
  case (Inl e)
  with assms show ?thesis by (simp add: glob_zip_unlisted)
next
  case (Inr names)
  from assms(2) have "p \<in> (\<lambda>name. d @ sep # name) ` {name \<in> set names. zip_name name}"
    unfolding glob_zip_plain [OF assms(1) Inr] by simp
  then obtain name where "name \<in> set names" "zip_name name" "p = d @ sep # name"
    by (elim imageE CollectE conjE)
  with Inr show ?thesis by (intro exI conjI)
qed

lemma glob_zip_latest:
  fixes k :: "string \<Rightarrow> 't::linorder"
  assumes "plain_dir d" and "os_listdir os w d = Inr names"
    and "name0 \<in> set names" and "zip_name name0"
  shows "\<exists>name \<in> set names. zip_name name \<and>
           (\<forall>other \<in> set names. zip_name other \<longrightarrow> k (d @ sep # other) \<le> k (d @ sep # name)) \<and>
           max_key k (glob_zip os w d) = Inr (d @ sep # name)"
proof -
  let ?files = "glob_zip os w d"
  have files: "?files = map (\<lambda>name. d @ sep # name) (filter zip_name names)"
    by (rule glob_zip_plain [OF assms(1,2)])
  have mem: "d @ sep # other \<in> set ?files" if "other \<in> set names" "zip_name other" for other
    unfolding files using that by simp
  from mem [OF assms(3,4)] have "?files \<noteq> []" by (cases ?files) simp_all
  from max_key_Inr [OF this, of k] obtain latest where
    m: "max_key k ?files = Inr latest" and l: "latest \<in> set ?files"
    and top: "\<forall>f \<in> set ?files. k f \<le> k latest"
    by (elim exE conjE)
  from glob_zip_member [OF assms(1) l] assms(2) obtain name where
    n: "name \<in> set names" and z: "zip_name name" and e: "latest = d @ sep # name"
    by (elim exE conjE) simp
  have "\<forall>other \<in> set names. zip_name other \<longrightarrow> k (d @ sep # other) \<le> k (d @ sep # name)"
  proof (intro ballI impI)
    fix other assume "other \<in> set names" "zip_name other"
    then have "d @ sep # other \<in> set ?files" by (rule mem)
    with top show "k (d @ sep # other) \<le> k (d @ sep # name)" unfolding e by (rule bspec)
  qed
  with n z m show ?thesis unfolding e by (intro bexI [of _ name] conjI)
qed







subsection \<open>Loading the settings\<close>

lemma load_lines_ignored:
  "ignored_line raw \<Longrightarrow> load_lines os (raw # rest) st = load_lines os rest st"
  by (auto simp: ignored_line_def stripped_def Let_def)

lemma load_lines_malformed:
  "\<not> wellformed_line raw \<Longrightarrow> load_lines os (raw # rest) st = (Inl ValueError, st)"
  by (simp add: wellformed_line_def ignored_line_def stripped_def Let_def split_unpack_def)

lemma load_lines_unknown:
  "\<not> ignored_line raw \<Longrightarrow> CHR ''='' \<in> set (stripped raw) \<Longrightarrow> assignment raw = (k, v) \<Longrightarrow>
   map_of (settings st) k = None \<or> \<not> sublist ''_dir'' k \<Longrightarrow>
   load_lines os (raw # rest) st = load_lines os rest st"
  by (auto simp: ignored_line_def stripped_def assignment_def Let_def split_unpack_def
      split: option.splits)

lemma load_lines_adopt:
  "\<not> ignored_line raw \<Longrightarrow> CHR ''='' \<in> set (stripped raw) \<Longrightarrow> assignment raw = (k, v) \<Longrightarrow>
   map_of (settings st) k = Some cur \<Longrightarrow> sublist ''_dir'' k \<Longrightarrow>
   os_path_exists os (world st) v \<Longrightarrow>
   load_lines os (raw # rest) st =
     load_lines os rest
       (logging INFO (''Using directory (Settings '' @ k @ '') '' @ v)
          (st\<lparr>settings := AList.update k v (settings st)\<rparr>))"
  by (auto simp: ignored_line_def stripped_def assignment_def Let_def split_unpack_def)

lemma load_lines_fail:
  "\<not> ignored_line raw \<Longrightarrow> CHR ''='' \<in> set (stripped raw) \<Longrightarrow> assignment raw = (k, v) \<Longrightarrow>
   map_of (settings st) k = Some cur \<Longrightarrow> sublist ''_dir'' k \<Longrightarrow>
   \<not> os_path_exists os (world st) v \<Longrightarrow> \<not> os_path_exists os (world st) cur \<Longrightarrow>
   fst (load_lines os (raw # rest) st) = Inr False"
  by (auto simp: ignored_line_def stripped_def assignment_def Let_def split_unpack_def)

lemma load_lines_keep:
  "\<not> ignored_line raw \<Longrightarrow> CHR ''='' \<in> set (stripped raw) \<Longrightarrow> assignment raw = (k, v) \<Longrightarrow>
   map_of (settings st) k = Some cur \<Longrightarrow> sublist ''_dir'' k \<Longrightarrow>
   \<not> os_path_exists os (world st) v \<Longrightarrow> os_path_exists os (world st) cur \<Longrightarrow>
   load_lines os (raw # rest) st =
     load_lines os rest
       (logging INFO (''Using directory (Default '' @ k @ '') '' @ cur)
          (logging WARNING (''Directory does not exist (Settings '' @ k @ '') '' @ v) st))"
  by (auto simp: ignored_line_def stripped_def assignment_def Let_def split_unpack_def)


declare load_lines.simps(2) [simp del]

lemma config_entries_Nil [simp]: "config_entries [] = []"
  by (simp add: config_entries_def)

lemma config_entries_ignored:
  "ignored_line raw \<Longrightarrow> config_entries (raw # rest) = config_entries rest"
  by (simp add: config_entries_def)

lemma config_entries_assignment:
  "\<not> ignored_line raw \<Longrightarrow> config_entries (raw # rest) = assignment raw # config_entries rest"
  by (simp add: config_entries_def)

lemma load_lines_valid:
  assumes "\<forall>raw \<in> set contents. wellformed_line raw"
    and "\<forall>(k, v) \<in> set (config_entries contents).
           k \<in> fst ` set (settings st) \<and> sublist ''_dir'' k \<longrightarrow> os_path_exists os (world st) v"
  shows "\<exists>st'. load_lines os contents st = (Inr True, st') \<and> world st' = world st \<and>
           settings st' = apply_config (settings st) (config_entries contents)"
  using assms
proof (induction contents arbitrary: st)
  case Nil
  show ?case by simp
next
  case (Cons raw rest)
  have wf: "\<forall>raw \<in> set rest. wellformed_line raw" using Cons.prems(1) by simp
  show ?case
  proof (cases "ignored_line raw")
    case True
    have "\<exists>st'. load_lines os rest st = (Inr True, st') \<and> world st' = world st \<and>
           settings st' = apply_config (settings st) (config_entries rest)"
      by (rule Cons.IH [OF wf]) (use Cons.prems(2) True in \<open>simp add: config_entries_ignored\<close>)
    then show ?thesis
      by (simp add: load_lines_ignored [OF True] config_entries_ignored [OF True])
  next
    case False
    obtain k v where kv: "assignment raw = (k, v)" by (cases "assignment raw")
    have eq: "CHR ''='' \<in> set (stripped raw)"
      using Cons.prems(1) False by (simp add: wellformed_line_def)
    have ce: "config_entries (raw # rest) = (k, v) # config_entries rest"
      by (simp add: config_entries_assignment [OF False] kv)
    show ?thesis
    proof (cases "k \<in> fst ` set (settings st) \<and> sublist ''_dir'' k")
      case True
      then obtain cur where cur: "map_of (settings st) k = Some cur"
        by (cases "map_of (settings st) k") (simp_all add: map_of_eq_None_iff)
      have ex: "os_path_exists os (world st) v"
        using Cons.prems(2) True unfolding ce by simp
      let ?st1 = "logging INFO (''Using directory (Settings '' @ k @ '') '' @ v)
          (st\<lparr>settings := AList.update k v (settings st)\<rparr>)"
      have keys: "fst ` set (settings ?st1) = fst ` set (settings st)"
        using True by (auto simp: dom_update)
      have "\<exists>st'. load_lines os rest ?st1 = (Inr True, st') \<and> world st' = world ?st1 \<and>
           settings st' = apply_config (settings ?st1) (config_entries rest)"
      proof (rule Cons.IH [OF wf])
        show "\<forall>(k, v) \<in> set (config_entries rest).
           k \<in> fst ` set (settings ?st1) \<and> sublist ''_dir'' k \<longrightarrow> os_path_exists os (world ?st1) v"
          unfolding keys using Cons.prems(2) unfolding ce by simp
      qed
      then show ?thesis
        unfolding load_lines_adopt [OF False eq kv cur conjunct2 [OF True] ex] ce
        using True by simp
    next
      case False2: False
      then have "map_of (settings st) k = None \<or> \<not> sublist ''_dir'' k"
        by (auto simp: map_of_eq_None_iff)
      note step = load_lines_unknown [OF False eq kv this]
      have "\<exists>st'. load_lines os rest st = (Inr True, st') \<and> world st' = world st \<and>
           settings st' = apply_config (settings st) (config_entries rest)"
        by (rule Cons.IH [OF wf]) (use Cons.prems(2) in \<open>simp add: ce\<close>)
      moreover have "apply_config (settings st) ((k, v) # config_entries rest) =
          apply_config (settings st) (config_entries rest)"
        using False2 by auto
      ultimately show ?thesis unfolding step ce by simp
    qed
  qed
qed

lemma apply_config_two:
  assumes "a \<noteq> b" "sublist ''_dir'' a" "sublist ''_dir'' b"
  shows "apply_config [(a, x), (b, y)] es =
           [(a, case map_of (rev es) a of None \<Rightarrow> x | Some v \<Rightarrow> v),
            (b, case map_of (rev es) b of None \<Rightarrow> y | Some v \<Rightarrow> v)]"
proof (induction es arbitrary: x y)
  case Nil
  show ?case by simp
next
  case (Cons e es)
  obtain k v where e: "e = (k, v)" by (cases e)
  consider "k = a" | "k = b" | "k \<noteq> a" "k \<noteq> b" by blast
  then show ?case
  proof cases
    case 1
    then show ?thesis using assms unfolding e
      by (simp add: Cons.IH map_add_def split: option.splits)
  next
    case 2
    then show ?thesis using assms unfolding e
      by (simp add: Cons.IH map_add_def split: option.splits)
  next
    case 3
    then show ?thesis using assms unfolding e
      by (simp add: Cons.IH map_add_def split: option.splits)
  qed
qed

lemma load_lines_nonexistent:
  assumes "\<forall>raw \<in> set contents. wellformed_line raw"
    and "map_of (settings st) key = Some cur"
    and "sublist ''_dir'' key"
    and "\<not> os_path_exists os (world st) cur"
    and "\<forall>v. (key, v) \<in> set (config_entries contents) \<longrightarrow> \<not> os_path_exists os (world st) v"
    and "\<exists>v. (key, v) \<in> set (config_entries contents)"
  shows "fst (load_lines os contents st) = Inr False"
  using assms
proof (induction contents arbitrary: st)
  case Nil
  then show ?case by simp
next
  case (Cons raw rest)
  have wf: "\<forall>raw \<in> set rest. wellformed_line raw" using Cons.prems(1) by simp
  show ?case
  proof (cases "ignored_line raw")
    case True
    have "fst (load_lines os rest st) = Inr False"
      by (rule Cons.IH [OF wf Cons.prems(2,3,4)])
         (use Cons.prems(5,6) in \<open>simp_all add: config_entries_ignored [OF True]\<close>)
    then show ?thesis by (simp add: load_lines_ignored [OF True])
  next
    case False
    obtain k v where kv: "assignment raw = (k, v)" by (cases "assignment raw")
    have eq: "CHR ''='' \<in> set (stripped raw)"
      using Cons.prems(1) False by (simp add: wellformed_line_def)
    have ce: "config_entries (raw # rest) = (k, v) # config_entries rest"
      by (simp add: config_entries_assignment [OF False] kv)
    have rest5: "\<forall>v. (key, v) \<in> set (config_entries rest) \<longrightarrow> \<not> os_path_exists os (world st) v"
      using Cons.prems(5) unfolding ce by simp
    have rest6: "\<exists>v. (key, v) \<in> set (config_entries rest)" if "k \<noteq> key"
      using Cons.prems(6) that unfolding ce by simp
    show ?thesis
    proof (cases "map_of (settings st) k")
      case None
      then have ne: "k \<noteq> key" using Cons.prems(2) by auto
      have "fst (load_lines os rest st) = Inr False"
        by (rule Cons.IH [OF wf Cons.prems(2,3,4) rest5 rest6 [OF ne]])
      then show ?thesis
        by (simp add: load_lines_unknown [OF False eq kv disjI1 [OF None]])
    next
      case (Some current)
      show ?thesis
      proof (cases "sublist ''_dir'' k")
        case nd: False
        then have ne: "k \<noteq> key" using Cons.prems(3) by auto
        have "fst (load_lines os rest st) = Inr False"
          by (rule Cons.IH [OF wf Cons.prems(2,3,4) rest5 rest6 [OF ne]])
        then show ?thesis
          by (simp add: load_lines_unknown [OF False eq kv disjI2 [OF nd]])
      next
        case d: True
        show ?thesis
        proof (cases "os_path_exists os (world st) v")
          case ex: True
          then have ne: "k \<noteq> key" using Cons.prems(5) unfolding ce by auto
          let ?st1 = "logging INFO (''Using directory (Settings '' @ k @ '') '' @ v)
              (st\<lparr>settings := AList.update k v (settings st)\<rparr>)"
          have "fst (load_lines os rest ?st1) = Inr False"
          proof (rule Cons.IH [OF wf])
            show "map_of (settings ?st1) key = Some cur"
              using Cons.prems(2) ne by (simp add: update_conv')
            show "sublist ''_dir'' key" by (rule Cons.prems(3))
            show "\<not> os_path_exists os (world ?st1) cur" using Cons.prems(4) by simp
            show "\<forall>v. (key, v) \<in> set (config_entries rest) \<longrightarrow> \<not> os_path_exists os (world ?st1) v"
              using rest5 by simp
            show "\<exists>v. (key, v) \<in> set (config_entries rest)" by (rule rest6 [OF ne])
          qed
          then show ?thesis
            unfolding load_lines_adopt [OF False eq kv Some d ex] .
        next
          case nex: False
          show ?thesis
          proof (cases "os_path_exists os (world st) current")
            case False
            with load_lines_fail [OF \<open>\<not> ignored_line raw\<close> eq kv Some d nex] show ?thesis by simp
          next
            case True
            then have ne: "k \<noteq> key" using Cons.prems(2,4) Some by auto
            let ?st1 = "logging INFO (''Using directory (Default '' @ k @ '') '' @ current)
                (logging WARNING (''Directory does not exist (Settings '' @ k @ '') '' @ v) st)"
            have "fst (load_lines os rest ?st1) = Inr False"
            proof (rule Cons.IH [OF wf])
              show "map_of (settings ?st1) key = Some cur" using Cons.prems(2) by simp
              show "sublist ''_dir'' key" by (rule Cons.prems(3))
              show "\<not> os_path_exists os (world ?st1) cur" using Cons.prems(4) by simp
              show "\<forall>v. (key, v) \<in> set (config_entries rest) \<longrightarrow> \<not> os_path_exists os (world ?st1) v"
                using rest5 by simp
              show "\<exists>v. (key, v) \<in> set (config_entries rest)" by (rule rest6 [OF ne])
            qed
            then show ?thesis
              unfolding load_lines_keep [OF \<open>\<not> ignored_line raw\<close> eq kv Some d nex True] .
          qed
        qed
      qed
    qed
  qed
qed

lemma loadSettings_file:
  "os_path_exists os (world st) ''settings.txt'' \<Longrightarrow>
   readlines os (world st) ''settings.txt'' = Inr contents \<Longrightarrow> contents \<noteq> [] \<Longrightarrow>
   loadSettings os st =
     load_lines os contents (logging INFO ''Read file'' (logging INFO ''Loading settings'' st))"
  by (simp add: loadSettings_def read_def)

text \<open>
  Claim C1. Let the settings file exist, let each of its lines be ignored or of the form
  \<open>key=value\<close>, and let the settings hold the two built-in defaults. If both
  \<open>download_dir\<close> and \<open>bakkesmod_dir\<close> are assigned and every path assigned to
  one of them exists, \<open>loadSettings\<close> returns true and the settings hold exactly the
  values assigned (for a key assigned more than once, the last one). If
  \<open>bakkesmod_dir\<close> is assigned, no path assigned to it exists, and its built-in default
  does not exist either, \<open>loadSettings\<close> returns false.
\<close>

theorem loadSettings_configuration:
  assumes "os_path_exists os (world st) ''settings.txt''"
    and "readlines os (world st) ''settings.txt'' = Inr contents"
    and "\<forall>raw \<in> set contents. wellformed_line raw"
    and "settings st = initial_settings DOWNLOAD_DIR BAKKESMOD_DIR"
  shows "(''download_dir'' \<in> fst ` set (config_entries contents) \<and>
          ''bakkesmod_dir'' \<in> fst ` set (config_entries contents) \<and>
          (\<forall>(k, v) \<in> set (config_entries contents).
              k = ''download_dir'' \<or> k = ''bakkesmod_dir'' \<longrightarrow> os_path_exists os (world st) v) \<longrightarrow>
          (\<exists>st' download_dir bakkesmod_dir.
              loadSettings os st = (Inr True, st') \<and> world st' = world st \<and>
              map_of (rev (config_entries contents)) ''download_dir'' = Some download_dir \<and>
              map_of (rev (config_entries contents)) ''bakkesmod_dir'' = Some bakkesmod_dir \<and>
              settings st' = initial_settings download_dir bakkesmod_dir)) \<and>
         ((\<exists>v. (''bakkesmod_dir'', v) \<in> set (config_entries contents)) \<and>
          (\<forall>v. (''bakkesmod_dir'', v) \<in> set (config_entries contents) \<longrightarrow>
               \<not> os_path_exists os (world st) v) \<and>
          \<not> os_path_exists os (world st) BAKKESMOD_DIR \<longrightarrow>
          fst (loadSettings os st) = Inr False)"
proof (intro conjI impI)
  let ?E = "config_entries contents"
  let ?st1 = "logging INFO ''Read file'' (logging INFO ''Loading settings'' st)"
  assume a: "''download_dir'' \<in> fst ` set ?E \<and> ''bakkesmod_dir'' \<in> fst ` set ?E \<and>
          (\<forall>(k, v) \<in> set ?E.
              k = ''download_dir'' \<or> k = ''bakkesmod_dir'' \<longrightarrow> os_path_exists os (world st) v)"
  then have "?E \<noteq> []" by auto
  then have ne: "contents \<noteq> []" by auto
  have keys: "fst ` set (settings ?st1) = {''download_dir'', ''bakkesmod_dir''}"
    using assms(4) by (simp add: initial_settings_def)
  have "\<forall>(k, v) \<in> set ?E.
           k \<in> fst ` set (settings ?st1) \<and> sublist ''_dir'' k \<longrightarrow> os_path_exists os (world ?st1) v"
    unfolding keys using a by auto
  from load_lines_valid [OF assms(3) this] obtain st' where
    r: "load_lines os contents ?st1 = (Inr True, st')" and w: "world st' = world ?st1"
    and s: "settings st' = apply_config (settings ?st1) ?E"
    by (elim exE conjE)
  have d1: "sublist ''_dir'' ''download_dir''" by (simp add: sublist_code)
  have d2: "sublist ''_dir'' ''bakkesmod_dir''" by (simp add: sublist_code)
  have nq: "''download_dir'' \<noteq> ''bakkesmod_dir''" by simp
  from a obtain vd where vd: "map_of (rev ?E) ''download_dir'' = Some vd"
    by (cases "map_of (rev ?E) ''download_dir''") (simp_all add: map_of_eq_None_iff)
  from a obtain vb where vb: "map_of (rev ?E) ''bakkesmod_dir'' = Some vb"
    by (cases "map_of (rev ?E) ''bakkesmod_dir''") (simp_all add: map_of_eq_None_iff)
  have "settings st' = initial_settings vd vb"
    unfolding s using assms(4) apply_config_two [OF nq d1 d2, of DOWNLOAD_DIR BAKKESMOD_DIR ?E] vd vb
    by (simp add: initial_settings_def)
  moreover have "loadSettings os st = (Inr True, st')"
    using loadSettings_file [OF assms(1,2) ne] r by simp
  moreover have "world st' = world st" using w by simp
  ultimately show "\<exists>st' download_dir bakkesmod_dir.
              loadSettings os st = (Inr True, st') \<and> world st' = world st \<and>
              map_of (rev ?E) ''download_dir'' = Some download_dir \<and>
              map_of (rev ?E) ''bakkesmod_dir'' = Some bakkesmod_dir \<and>
              settings st' = initial_settings download_dir bakkesmod_dir"
    using vd vb by (intro exI [of _ st'] exI [of _ vd] exI [of _ vb] conjI)
next
  let ?E = "config_entries contents"
  let ?st1 = "logging INFO ''Read file'' (logging INFO ''Loading settings'' st)"
  assume b: "(\<exists>v. (''bakkesmod_dir'', v) \<in> set ?E) \<and>
          (\<forall>v. (''bakkesmod_dir'', v) \<in> set ?E \<longrightarrow> \<not> os_path_exists os (world st) v) \<and>
          \<not> os_path_exists os (world st) BAKKESMOD_DIR"
  then have "?E \<noteq> []" by auto
  then have ne: "contents \<noteq> []" by auto
  have d2: "sublist ''_dir'' ''bakkesmod_dir''" by (simp add: sublist_code)
  have "fst (load_lines os contents ?st1) = Inr False"
  proof (rule load_lines_nonexistent [OF assms(3) _ d2])
    show "map_of (settings ?st1) ''bakkesmod_dir'' = Some BAKKESMOD_DIR"
      using assms(4) by (simp add: initial_settings_def)
    show "\<not> os_path_exists os (world ?st1) BAKKESMOD_DIR" using b by simp
    show "\<forall>v. (''bakkesmod_dir'', v) \<in> set ?E \<longrightarrow> \<not> os_path_exists os (world ?st1) v"
      using b by simp
    show "\<exists>v. (''bakkesmod_dir'', v) \<in> set ?E" using b by (elim conjE)
  qed
  then show "fst (loadSettings os st) = Inr False"
    using loadSettings_file [OF assms(1,2) ne] by simp
qed


theorem loadSettings_configuration_witness:
  "fst (loadSettings
          (test_os [''# paths'' @ [newline], ''download_dir=D:/dl'' @ [newline],
                    [newline], ''bakkesmod_dir=B:/bm'' @ [newline]] [])
          \<lparr>world = [''settings.txt'', ''D:/dl'', ''B:/bm''],
           settings = initial_settings ''C:/Downloads'' ''C:/bakkesmod'', trace = []\<rparr>) = Inr True \<and>
   settings (snd (loadSettings
          (test_os [''# paths'' @ [newline], ''download_dir=D:/dl'' @ [newline],
                    [newline], ''bakkesmod_dir=B:/bm'' @ [newline]] [])
          \<lparr>world = [''settings.txt'', ''D:/dl'', ''B:/bm''],
           settings = initial_settings ''C:/Downloads'' ''C:/bakkesmod'', trace = []\<rparr>)) =
     initial_settings ''D:/dl'' ''B:/bm'' \<and>
   fst (loadSettings
          (test_os [''bakkesmod_dir=Z:/none'' @ [newline]] [])
          \<lparr>world = [''settings.txt''],
           settings = initial_settings ''C:/Downloads'' ''C:/bakkesmod'', trace = []\<rparr>) = Inr False"
proof -
  let ?lines1 = "[''# paths'' @ [newline], ''download_dir=D:/dl'' @ [newline],
                    [newline], ''bakkesmod_dir=B:/bm'' @ [newline]]"
  let ?os1 = "test_os ?lines1 [] :: (string list, nat) os"
  let ?st1 = "\<lparr>world = [''settings.txt'', ''D:/dl'', ''B:/bm''],
           settings = initial_settings ''C:/Downloads'' ''C:/bakkesmod'', trace = [] :: event list\<rparr>"
  let ?lines2 = "[''bakkesmod_dir=Z:/none'' @ [newline]]"
  let ?os2 = "test_os ?lines2 [] :: (string list, nat) os"
  let ?st2 = "\<lparr>world = [''settings.txt''],
           settings = initial_settings ''C:/Downloads'' ''C:/bakkesmod'', trace = [] :: event list\<rparr>"
  have E1: "config_entries ?lines1 = [(''download_dir'', ''D:/dl''), (''bakkesmod_dir'', ''B:/bm'')]"
    by (simp add: config_entries_def ignored_line_def stripped_def assignment_def newline_def)
  have E2: "config_entries ?lines2 = [(''bakkesmod_dir'', ''Z:/none'')]"
    by (simp add: config_entries_def ignored_line_def stripped_def assignment_def newline_def)
  have wf1: "\<forall>raw \<in> set ?lines1. wellformed_line raw"
    by (simp add: wellformed_line_def ignored_line_def stripped_def newline_def)
  have wf2: "\<forall>raw \<in> set ?lines2. wellformed_line raw"
    by (simp add: wellformed_line_def ignored_line_def stripped_def newline_def)
  have x1: "os_path_exists ?os1 (world ?st1) ''settings.txt''" by (simp add: test_os_def)
  have x2: "os_path_exists ?os2 (world ?st2) ''settings.txt''" by (simp add: test_os_def)
  have r1: "readlines ?os1 (world ?st1) ''settings.txt'' = Inr ?lines1" by (simp add: test_os_def)
  have r2: "readlines ?os2 (world ?st2) ''settings.txt'' = Inr ?lines2" by (simp add: test_os_def)
  have i1: "settings ?st1 = initial_settings ''C:/Downloads'' ''C:/bakkesmod''" by simp
  have i2: "settings ?st2 = initial_settings ''C:/Downloads'' ''C:/bakkesmod''" by simp
  have p1: "''download_dir'' \<in> fst ` set (config_entries ?lines1) \<and>
          ''bakkesmod_dir'' \<in> fst ` set (config_entries ?lines1) \<and>
          (\<forall>(k, v) \<in> set (config_entries ?lines1).
              k = ''download_dir'' \<or> k = ''bakkesmod_dir'' \<longrightarrow> os_path_exists ?os1 (world ?st1) v)"
    unfolding E1 by (simp add: test_os_def)
  have p2: "(\<exists>v. (''bakkesmod_dir'', v) \<in> set (config_entries ?lines2)) \<and>
          (\<forall>v. (''bakkesmod_dir'', v) \<in> set (config_entries ?lines2) \<longrightarrow>
               \<not> os_path_exists ?os2 (world ?st2) v) \<and>
          \<not> os_path_exists ?os2 (world ?st2) ''C:/bakkesmod''"
    unfolding E2 by (simp add: test_os_def)
  from loadSettings_configuration [OF x1 r1 wf1 i1, THEN conjunct1, THEN mp, OF p1]
  obtain st' vd vb where
    l: "loadSettings ?os1 ?st1 = (Inr True, st')"
    and vd: "map_of (rev (config_entries ?lines1)) ''download_dir'' = Some vd"
    and vb: "map_of (rev (config_entries ?lines1)) ''bakkesmod_dir'' = Some vb"
    and s: "settings st' = initial_settings vd vb"
    by (elim exE conjE)
  from vd have "vd = ''D:/dl''" unfolding E1 by simp
  moreover from vb have "vb = ''B:/bm''" unfolding E1 by simp
  ultimately have s': "settings st' = initial_settings ''D:/dl'' ''B:/bm''" using s by simp
  have f: "fst (loadSettings ?os2 ?st2) = Inr False"
    by (rule loadSettings_configuration [OF x2 r2 wf2 i2, THEN conjunct2, THEN mp, OF p2])
  show ?thesis unfolding l using s' f by simp
qed

text \<open>
  Claim C6. The claim is that \<open>loadSettings\<close> returns a boolean for every content of
  the file. The code does not: a line that is neither empty nor a comment and holds no
  \<open>=\<close> makes the unpacking of the split raise ValueError, which leaves
  \<open>loadSettings\<close> as an exception.
\<close>

theorem loadSettings_line_without_separator_raises:
  "fst (loadSettings (test_os [''# paths'' @ [newline], ''download_dir'' @ [newline]] [])
          \<lparr>world = [''settings.txt'', ''C:/Downloads'', ''C:/bakkesmod''],
           settings = initial_settings ''C:/Downloads'' ''C:/bakkesmod'', trace = []\<rparr>) =
   Inl ValueError"
  by (simp add: loadSettings_def read_def test_os_def load_lines.simps newline_def split_unpack_def)

subsection \<open>The extraction directory\<close>

text \<open>
  For an archive path in which \<open>.zip\<close> occurs only as the final extension, line 252
  does compute the path without that extension.
\<close>

lemma file_dir_of_final_zip:
  assumes "\<not> sublist ''.zip'' (path @ ''.zi'')"
  shows "file_dir_of (path @ ''.zip'') = path"
  using assms
proof (induction path)
  case Nil
  show ?case by (simp add: file_dir_of_def)
next
  case (Cons c path)
  have np: "\<not> prefix ''.zip'' ((c # path) @ ''.zip'')"
  proof
    assume p: "prefix ''.zip'' ((c # path) @ ''.zip'')"
    have "(c # path) @ ''.zip'' = ((c # path) @ ''.zi'') @ ''p''" by simp
    with p have "prefix ''.zip'' (((c # path) @ ''.zi'') @ ''p'')" by (simp only:)
    then have "prefix ''.zip'' ((c # path) @ ''.zi'') \<or>
        (\<exists>us. ''.zip'' = ((c # path) @ ''.zi'') @ us \<and> prefix us ''p'')"
      by (simp only: prefix_append)
    then have "prefix ''.zip'' ((c # path) @ ''.zi'')"
    proof
      assume "prefix ''.zip'' ((c # path) @ ''.zi'')"
      then show ?thesis .
    next
      assume "\<exists>us. ''.zip'' = ((c # path) @ ''.zi'') @ us \<and> prefix us ''p''"
      then obtain us where e: "''.zip'' = ((c # path) @ ''.zi'') @ us" by (elim exE conjE)
      then have "length ''.zip'' = length (((c # path) @ ''.zi'') @ us)" by (rule arg_cong)
      then have "us = []" by simp
      with e show ?thesis by simp
    qed
    then have "sublist ''.zip'' ((c # path) @ ''.zi'')" by (rule prefix_imp_sublist)
    with Cons.prems show False by (rule notE)
  qed
  have "\<not> sublist ''.zip'' (path @ ''.zi'')"
    using Cons.prems by (simp add: sublist_Cons_right)
  then have "file_dir_of (path @ ''.zip'') = path" by (rule Cons.IH)
  then have IH: "replace_str ''.zip'' [] (path @ ''.zip'') = path"
    unfolding file_dir_of_def .
  have np': "\<not> prefix ''.zip'' (c # (path @ ''.zip''))"
    using np unfolding append_Cons .
  have ne: "''.zip'' \<noteq> ([] :: string)" by simp
  show ?case
    unfolding file_dir_of_def append_Cons
    by (subst replace_str.simps(2)) (simp only: ne np' if_False IH)
qed

lemma without_extension_final_zip: "without_extension (path @ ''.zip'') = path"
  by (simp add: without_extension_def sep_def)

text \<open>
  Claim C5. The claim is that the extraction directory is the archive path without its final
  extension, also when \<open>.zip\<close> occurs earlier in the path. The code removes every
  occurrence of \<open>.zip\<close>: for an archive in the directory \<open>dl.zip\<close> it computes a
  path inside \<open>dl\<close>, which differs from the path without the final extension.
\<close>

theorem file_dir_of_inner_zip:
  "file_dir_of (''D:'' @ sep # ''dl.zip'' @ sep # ''RocketPlugin_v1.zip'') =
     ''D:'' @ sep # ''dl'' @ sep # ''RocketPlugin_v1'' \<and>
   without_extension (''D:'' @ sep # ''dl.zip'' @ sep # ''RocketPlugin_v1.zip'') =
     ''D:'' @ sep # ''dl.zip'' @ sep # ''RocketPlugin_v1'' \<and>
   file_dir_of (''D:'' @ sep # ''dl.zip'' @ sep # ''RocketPlugin_v1.zip'') \<noteq>
     without_extension (''D:'' @ sep # ''dl.zip'' @ sep # ''RocketPlugin_v1.zip'')"
  by (simp add: file_dir_of_def without_extension_def sep_def)

subsection \<open>The dialogs of a run\<close>

lemma dialogs_simps [simp]:
  "dialogs (logging l m st) = dialogs st"
  "dialogs (after_idle_update st) = dialogs st"
  "dialogs (root_quit st) = dialogs st"
  "dialogs (popen os args st) = dialogs st"
  "dialogs (showerror msg st) = dialogs st @ [Showerror msg]"
  "dialogs (showinfo msg st) = dialogs st @ [Showinfo msg]"
  "dialogs (st\<lparr>world := w\<rparr>) = dialogs st"
  "dialogs (st\<lparr>settings := s\<rparr>) = dialogs st"
  by (simp_all add: dialogs_def)

lemma dialogs_check_files: "dialogs (snd (check_files os files st)) = dialogs st"
  by (induction files) simp_all

lemma dialogs_warn_dirs: "dialogs (warn_dirs os kvs st) = dialogs st"
  by (induction os kvs st rule: warn_dirs.induct) simp_all

lemma dialogs_checkDependencies:
  "checkDependencies os st = (b, st') \<Longrightarrow> dialogs st' = dialogs st"
  using dialogs_check_files [of os "[''settings.txt'', ''unzip_file.bat'']" "logging INFO ''Checking dependencies'' st"]
  by (auto simp: checkDependencies_def dialogs_warn_dirs split: prod.splits bool.splits)

lemma dialogs_read: "read os file st = (r, st') \<Longrightarrow> dialogs st' = dialogs st"
  by (auto simp: read_def split: if_splits sum.splits)

lemma dialogs_check_defaults: "dialogs (snd (check_defaults os kvs st)) = dialogs st"
  by (induction os kvs st rule: check_defaults.induct) simp_all

lemma dialogs_load_lines: "dialogs (snd (load_lines os contents st)) = dialogs st"
proof (induction contents arbitrary: st)
  case Nil
  show ?case by simp
next
  case (Cons raw rest)
  show ?case
    by (simp add: load_lines.simps(2) Let_def Cons.IH split: sum.splits prod.splits option.splits)
qed

lemma dialogs_loadSettings:
  "loadSettings os st = (r, st') \<Longrightarrow> dialogs st' = dialogs st"
proof -
  assume a: "loadSettings os st = (r, st')"
  obtain c st1 where rd: "read os ''settings.txt'' (logging INFO ''Loading settings'' st) = (c, st1)"
    by (cases "read os ''settings.txt'' (logging INFO ''Loading settings'' st)")
  from dialogs_read [OF rd] have d1: "dialogs st1 = dialogs st" by simp
  show ?thesis
  proof (cases c)
    case (Inl e)
    with a rd d1 show ?thesis by (simp add: loadSettings_def)
  next
    case (Inr contents)
    show ?thesis
    proof (cases "contents = []")
      case True
      with a rd Inr have "st' = snd (check_defaults os (settings st1) st1)"
        by (auto simp: loadSettings_def split: prod.splits)
      then show ?thesis using d1 by (simp add: dialogs_check_defaults)
    next
      case False
      with a rd Inr have "st' = snd (load_lines os contents st1)"
        by (auto simp: loadSettings_def)
      then show ?thesis using d1 by (simp add: dialogs_load_lines)
    qed
  qed
qed

lemma dialogs_poll_aux:
  assumes "poll os d st = Some y"
  shows "dialogs (snd y) = dialogs st"
proof (rule poll.raw_induct [where P = "\<lambda>os d st y. dialogs (snd y) = dialogs st", OF _ assms])
  fix p :: "('a, 'b) os \<Rightarrow> string \<Rightarrow> 'a state \<Rightarrow> ((error + string \<times> string) \<times> 'a state) option"
  fix os d st y
  assume IH: "\<And>os d st y. p os d st = Some y \<Longrightarrow> dialogs (snd y) = dialogs st"
  assume b: "(case max_key (os_path_getctime os (world st)) (glob_zip os (world st) d) of
        Inl e \<Rightarrow> Some (Inl e, st)
      | Inr latest_file \<Rightarrow>
          if sublist ''RocketPlugin_'' latest_file
          then Some (Inr (replace_str (d @ [sep]) [] latest_file, latest_file),
                     logging INFO ''Download done'' st)
          else p os d (st\<lparr>world := elapse os (world st)\<rparr>)) = Some y"
  show "dialogs (snd y) = dialogs st"
  proof (cases "max_key (os_path_getctime os (world st)) (glob_zip os (world st) d)")
    case (Inl e)
    with b show ?thesis by auto
  next
    case (Inr latest_file)
    show ?thesis
    proof (cases "sublist ''RocketPlugin_'' latest_file")
      case True
      with b Inr show ?thesis by auto
    next
      case False
      with b Inr have "p os d (st\<lparr>world := elapse os (world st)\<rparr>) = Some y" by simp
      from IH [OF this] show ?thesis by simp
    qed
  qed
qed

lemma dialogs_downloadPlugins:
  "downloadPlugins os d st = Some (r, st') \<Longrightarrow> dialogs st' = dialogs st"
  using dialogs_poll_aux [of os d "popen os [''start \"\" '' @ PLUGINS_URL] (logging INFO ''Downloading'' st)" "(r, st')"]
  by (simp add: downloadPlugins_def)

lemma dialogs_unzipPlugins: "dialogs (unzipPlugins os file_dir st) = dialogs st"
  by (simp add: unzipPlugins_def Let_def)

lemma dialogs_effect:
  "\<not> is_dialog ev \<Longrightarrow> dialogs (snd (effect f ev st)) = dialogs st"
  by (simp add: effect_def dialogs_def split: prod.splits option.splits)

lemma dialogs_copy_presets:
  "dialogs (snd (copy_presets os bakkesmod_dir file_dir filenames st)) = dialogs st"
proof (induction filenames arbitrary: st)
  case Nil
  show ?case by simp
next
  case (Cons filename rest)
  let ?src = "file_dir @ sep # ''data'' @ sep # ''RocketPlugin'' @ sep # ''presets'' @ sep # filename"
  let ?dst = "bakkesmod_dir @ sep # ''cfg'' @ [sep]"
  obtain r st1 where e: "effect (shutil_copy os ?src ?dst) (Copy ?src ?dst) st = (r, st1)"
    by (cases "effect (shutil_copy os ?src ?dst) (Copy ?src ?dst) st")
  have "dialogs st1 = dialogs st"
    using dialogs_effect [of "Copy ?src ?dst" "shutil_copy os ?src ?dst" st] e by simp
  then show ?case
    using e Cons.IH [of st1] by (cases r) (simp_all add: Let_def)
qed

lemma dialogs_seq:
  assumes "dialogs (snd x) = D"
    and "\<And>u s. dialogs s = D \<Longrightarrow> dialogs (snd (g u s)) = D"
  shows "dialogs (snd (case x of (Inl e, s) \<Rightarrow> (Inl e, s) | (Inr u, s) \<Rightarrow> g u s)) = D"
proof (cases x)
  case (Pair r s)
  then show ?thesis using assms by (cases r) simp_all
qed

lemma dialogs_updatePlugins:
  "dialogs (snd (updatePlugins os bakkesmod_dir file_dir st)) = dialogs st"
proof (cases "os_listdir os (world st)
         (file_dir @ sep # ''data'' @ sep # ''RocketPlugin'' @ sep # ''presets'')")
  case (Inl e)
  then show ?thesis by (simp add: updatePlugins_def Let_def)
next
  case (Inr filenames)
  show ?thesis
    unfolding updatePlugins_def Let_def world_logging Inr sum.case
    by (intro dialogs_seq) (simp_all add: dialogs_copy_presets dialogs_effect)
qed

lemma dialogs_cleanDownloads:
  "dialogs (snd (cleanDownloads os zipped_file_dir file_dir st)) = dialogs st"
  unfolding cleanDownloads_def
  by (intro dialogs_seq) (simp_all add: dialogs_effect)

lemma dialogs_finish:
  "dialogs (finish error_occurred st) =
     dialogs st @ (if error_occurred then [Showerror error_occurred_message] else [])"
  by (simp add: finish_def)




lemma main_success_run:
  "map_option fst
     (main (test_os [] [(''RocketPlugin_v2.zip'', 2)]) ''Thread-2''
        \<lparr>world = [''settings.txt'', ''unzip_file.bat'', ''C:/Downloads'', ''C:/bakkesmod''],
         settings = initial_settings ''C:/Downloads'' ''C:/bakkesmod'', trace = []\<rparr>) =
     Some (Inr False)"
  by (simp add: main_def checkDependencies_def loadSettings_def read_def test_os_def
        initial_settings_def sublist_code downloadPlugins_def poll.simps max_key_def glob_zip_def
        plain_dir_def separator_def wildcard_def
        zip_name_def lower_def suffix_to_prefix file_dir_of_def unzipPlugins_def Let_def popen_def
        updatePlugins_def effect_def cleanDownloads_def sep_def
        finish_def logging_def showerror_def showinfo_def after_idle_update_def root_quit_def)

lemma test_os_never:
  "downloadPlugins (test_os lines [(''other.zip'', t)]) ''C:/Downloads'' st = None"
proof -
  let ?os = "test_os lines [(''other.zip'', t)] :: (string list, nat) os"
  have w: "waiting ?os ''C:/Downloads'' w" for w
    by (simp add: waiting_def max_key_def glob_zip_def plain_dir_def separator_def wildcard_def
          sep_def test_os_def zip_name_def lower_def suffix_to_prefix sublist_code)
  show ?thesis unfolding downloadPlugins_def
    by (rule poll_never) (rule allI, rule w)
qed

lemma main_polls_forever:
  "main (test_os [] [(''other.zip'', 1)]) ''Thread-2''
     \<lparr>world = [''settings.txt'', ''unzip_file.bat'', ''C:/Downloads'', ''C:/bakkesmod''],
      settings = initial_settings ''C:/Downloads'' ''C:/bakkesmod'', trace = []\<rparr> = None"
proof -
  have ex: "os_path_exists (test_os l e) w p = (p \<in> set w)"
    for l e and w :: "string list" and p
    by (simp add: test_os_def)
  have rl: "readlines (test_os l e) w p = Inr l"
    for l e and w :: "string list" and p
    by (simp add: test_os_def)
  show ?thesis
    by (simp add: main_def checkDependencies_def loadSettings_def read_def
          initial_settings_def sublist_code ex rl test_os_never)
qed


end
